theory Spec2Isabelle
  imports Main
begin

section \<open>The scheduler of src/scheduler.cpp\<close>

text \<open>
  The class \<open>scheduler\<close> keeps two \<open>std::set<pid_t>\<close> (parallelProcesses,
  finishedProcesses) and two \<open>std::queue<pid_t>\<close> (runnableQueue, blockedQueue).
  A set is a HOL set, a queue is a list whose head is \<open>front()\<close> and whose last
  element is the most recent \<open>push()\<close>. The logger is a collaborator whose output no
  operation reads back; it is left out of the state.

  \<open>pid_t\<close> is compared for equality only, so it is an \<open>int\<close>.
\<close>

type_synonym pid_t = int

text \<open>
  Two ways an operation can leave its normal path: a thrown \<open>runtime_error\<close> with its
  message, and \<open>front()\<close> or \<open>pop()\<close> called on an empty \<open>std::queue\<close>, which
  C++ leaves undefined. The second one is a branch of its own, so that no theorem can
  take an undefined read for a clean exception.
\<close>

datatype error = runtime_error string | EmptyQueueAccess

record scheduler =
  startingPid :: pid_t
  parallelProcesses :: "pid_t set"
  finishedProcesses :: "pid_t set"
  runnableQueue :: "pid_t list"
  blockedQueue :: "pid_t list"

text \<open>Constructor \<open>scheduler::scheduler(startingPid, log)\<close>, lines 12-16.\<close>

definition scheduler_ctor :: "pid_t \<Rightarrow> scheduler" where
  "scheduler_ctor p =
     \<lparr> startingPid = p, parallelProcesses = {p}, finishedProcesses = {},
       runnableQueue = [], blockedQueue = [] \<rparr>"

subsection \<open>Queries without loops (lines 18-56)\<close>

definition getStartingPid :: "scheduler \<Rightarrow> pid_t" where
  "getStartingPid s = startingPid s"

definition isInParallel :: "scheduler \<Rightarrow> pid_t \<Rightarrow> bool" where
  "isInParallel s process \<longleftrightarrow> process \<in> parallelProcesses s"

definition isFinished :: "scheduler \<Rightarrow> pid_t \<Rightarrow> bool" where
  "isFinished s process \<longleftrightarrow> process \<in> finishedProcesses s"

definition emptyScheduler :: "scheduler \<Rightarrow> bool" where
  "emptyScheduler s \<longleftrightarrow>
     runnableQueue s = [] \<and> blockedQueue s = [] \<and> parallelProcesses s = {}"

definition numberBlocked :: "scheduler \<Rightarrow> int" where
  "numberBlocked s = int (length (blockedQueue s))"

definition numberRunnable :: "scheduler \<Rightarrow> int" where
  "numberRunnable s = int (length (runnableQueue s))"

definition getNextRunnable :: "scheduler \<Rightarrow> pid_t" where
  "getNextRunnable s = (case runnableQueue s of [] \<Rightarrow> - 1 | frontPid # _ \<Rightarrow> frontPid)"

definition getNextBlocked :: "scheduler \<Rightarrow> pid_t" where
  "getNextBlocked s = (case blockedQueue s of [] \<Rightarrow> - 1 | frontPid # _ \<Rightarrow> frontPid)"

subsection \<open>Transitions guarded by a queue front\<close>

text \<open>
  \<open>resumeRetry\<close>, lines 58-64: \<open>blockedQueue.front()\<close> is read with no emptiness
  test, then compared with \<open>pid\<close>; on a match the front is popped and pushed back.
\<close>

definition resumeRetry :: "scheduler \<Rightarrow> pid_t \<Rightarrow> error + scheduler" where
  "resumeRetry s pid =
     (case blockedQueue s of
        [] \<Rightarrow> Inl EmptyQueueAccess
      | frontPid # rest \<Rightarrow>
          if frontPid \<noteq> pid then Inl (runtime_error ''trying to resume retry with wrong pid'')
          else Inr (s\<lparr> blockedQueue := rest @ [pid] \<rparr>))"

text \<open>\<open>preemptSyscall\<close>, lines 182-189.\<close>

definition preemptSyscall :: "scheduler \<Rightarrow> pid_t \<Rightarrow> error + scheduler" where
  "preemptSyscall s pid =
     (case runnableQueue s of
        [] \<Rightarrow> Inl EmptyQueueAccess
      | frontPid # rest \<Rightarrow>
          if frontPid \<noteq> pid then Inl (runtime_error ''trying to preempt wrong pid!'')
          else Inr (s\<lparr> runnableQueue := rest, blockedQueue := blockedQueue s @ [pid] \<rparr>))"

text \<open>
  \<open>resumeParallel\<close>, lines 191-202: both fronts are read first, each with no emptiness
  test, and only then compared, the blocked one first.
\<close>

definition resumeParallel :: "scheduler \<Rightarrow> pid_t \<Rightarrow> error + scheduler" where
  "resumeParallel s pid =
     (case blockedQueue s of
        [] \<Rightarrow> Inl EmptyQueueAccess
      | frontBlocked # restBlocked \<Rightarrow>
          (case runnableQueue s of
             [] \<Rightarrow> Inl EmptyQueueAccess
           | frontRunnable # restRunnable \<Rightarrow>
               if frontBlocked = pid then
                 Inr (s\<lparr> blockedQueue := restBlocked,
                         parallelProcesses := insert pid (parallelProcesses s) \<rparr>)
               else if frontRunnable = pid then
                 Inr (s\<lparr> runnableQueue := restRunnable,
                         parallelProcesses := insert pid (parallelProcesses s) \<rparr>)
               else Inl (runtime_error
                      ''trying to resume pid that is not front of either queue'')))"

subsection \<open>Unguarded transitions (lines 204-213)\<close>

definition addToParallelSet :: "scheduler \<Rightarrow> pid_t \<Rightarrow> scheduler" where
  "addToParallelSet s newProcess =
     s\<lparr> parallelProcesses := insert newProcess (parallelProcesses s) \<rparr>"

definition addToRunnableQueue :: "scheduler \<Rightarrow> pid_t \<Rightarrow> scheduler" where
  "addToRunnableQueue s pid =
     s\<lparr> parallelProcesses := parallelProcesses s - {pid},
        runnableQueue := runnableQueue s @ [pid] \<rparr>"

subsection \<open>The drain-and-rebuild loops\<close>

text \<open>
  Every scan keeps the part of the queue not yet visited and the temporary queue built
  so far. The loops of \<open>removeFromScheduler\<close> (lines 138-149 and 159-170) pop the front
  and then either stop, dropping it, or push it to the temporary. Each \<open>front()\<close> and
  \<open>pop()\<close> stands under the loop test \<open>!empty()\<close>, so these loops have no error
  branch.
\<close>

fun removeScan :: "pid_t \<Rightarrow> pid_t list \<Rightarrow> pid_t list \<Rightarrow> pid_t list \<times> pid_t list" where
  "removeScan pid [] temp = ([], temp)"
| "removeScan pid (frontPid # q) temp =
     (if frontPid = pid then (q, temp) else removeScan pid q (temp @ [frontPid]))"

text \<open>The loops that move what is left to the temporary (lines 94-98, 115-119, 151-155, 172-176).\<close>

fun drain :: "pid_t list \<Rightarrow> pid_t list \<Rightarrow> pid_t list" where
  "drain [] temp = temp"
| "drain (frontPid # q) temp = drain q (temp @ [frontPid])"

text \<open>
  \<open>removeFromScheduler\<close>, lines 124-180. The local \<open>found\<close> is written and never read,
  and nothing is thrown; all three collections are searched whatever the earlier
  searches found.
\<close>

definition removeFromScheduler :: "scheduler \<Rightarrow> pid_t \<Rightarrow> scheduler" where
  "removeFromScheduler s pid =
     (let par = (if pid \<in> parallelProcesses s then parallelProcesses s - {pid}
                 else parallelProcesses s);
          (blockedRest, blockedTemp) = removeScan pid (blockedQueue s) [];
          (runnableRest, runnableTemp) = removeScan pid (runnableQueue s) []
      in s\<lparr> parallelProcesses := par,
             blockedQueue := drain blockedRest blockedTemp,
             runnableQueue := drain runnableRest runnableTemp,
             finishedProcesses := insert pid (finishedProcesses s) \<rparr>)"

text \<open>
  The blocked-queue loop of \<open>isAlive\<close>, lines 79-92: the front is popped before the
  comparison, and the \<open>else\<close> branch pops once more, with no emptiness test, before it
  pushes the front it compared. The result is the flag \<open>found\<close>, the unvisited rest
  and the temporary.
\<close>

fun isAliveBlockedScan ::
  "pid_t \<Rightarrow> pid_t list \<Rightarrow> pid_t list \<Rightarrow> error + (bool \<times> pid_t list \<times> pid_t list)" where
  "isAliveBlockedScan pid [] temp = Inr (False, [], temp)"
| "isAliveBlockedScan pid (frontPid # q) temp =
     (if frontPid = pid then Inr (True, q, temp)
      else (case q of
              [] \<Rightarrow> Inl EmptyQueueAccess
            | _ # q' \<Rightarrow> isAliveBlockedScan pid q' (temp @ [frontPid])))"

text \<open>
  The runnable-queue loop of \<open>isAlive\<close>, lines 101-113: the front is compared while
  still in the queue and popped only when it differs.
\<close>

fun isAliveRunnableScan :: "pid_t \<Rightarrow> pid_t list \<Rightarrow> pid_t list \<Rightarrow> bool \<times> pid_t list \<times> pid_t list" where
  "isAliveRunnableScan pid [] temp = (False, [], temp)"
| "isAliveRunnableScan pid (frontPid # q) temp =
     (if frontPid = pid then (True, frontPid # q, temp)
      else isAliveRunnableScan pid q (temp @ [frontPid]))"

text \<open>
  \<open>isAlive\<close>, lines 67-122. It is not \<open>const\<close>: it assigns both queues, so the model
  returns the state with the answer. A hit in the parallel set returns at once.
\<close>

definition isAlive :: "scheduler \<Rightarrow> pid_t \<Rightarrow> error + (bool \<times> scheduler)" where
  "isAlive s pid =
     (if pid \<in> parallelProcesses s then Inr (True, s)
      else
        (case isAliveBlockedScan pid (blockedQueue s) [] of
           Inl e \<Rightarrow> Inl e
         | Inr (foundBlocked, blockedRest, blockedTemp) \<Rightarrow>
             (case isAliveRunnableScan pid (runnableQueue s) [] of
                (foundRunnable, runnableRest, runnableTemp) \<Rightarrow>
                  Inr (foundBlocked \<or> foundRunnable,
                       s\<lparr> blockedQueue := drain blockedRest blockedTemp,
                          runnableQueue := drain runnableRest runnableTemp \<rparr>))))"

subsection \<open>Callers: sequences of transitions\<close>

text \<open>
  What the claims call "the front of a queue": the queue has a first element and it is
  this pid. An empty queue has no front.
\<close>

definition atFront :: "pid_t \<Rightarrow> pid_t list \<Rightarrow> bool" where
  "atFront pid q = (case q of [] \<Rightarrow> False | frontPid # _ \<Rightarrow> frontPid = pid)"

text \<open>
  The control loop's round robin over the blocked processes: ask \<open>getNextBlocked\<close>
  for the front, call \<open>resumeRetry\<close> on it, \<open>n\<close> times over.
\<close>

fun retryRounds :: "nat \<Rightarrow> scheduler \<Rightarrow> error + scheduler" where
  "retryRounds 0 s = Inr s"
| "retryRounds (Suc n) s =
     (case resumeRetry s (getNextBlocked s) of
        Inl e \<Rightarrow> Inl e
      | Inr s' \<Rightarrow> retryRounds n s')"

text \<open>One call of a transition operation of the class, and a sequence of such calls
  that stops at the first one that does not return normally.\<close>

datatype transition =
    AddToParallelSet pid_t
  | AddToRunnableQueue pid_t
  | PreemptSyscall pid_t
  | ResumeRetry pid_t
  | ResumeParallel pid_t
  | RemoveFromScheduler pid_t

fun step :: "scheduler \<Rightarrow> transition \<Rightarrow> error + scheduler" where
  "step s (AddToParallelSet p) = Inr (addToParallelSet s p)"
| "step s (AddToRunnableQueue p) = Inr (addToRunnableQueue s p)"
| "step s (PreemptSyscall p) = preemptSyscall s p"
| "step s (ResumeRetry p) = resumeRetry s p"
| "step s (ResumeParallel p) = resumeParallel s p"
| "step s (RemoveFromScheduler p) = Inr (removeFromScheduler s p)"

fun run :: "scheduler \<Rightarrow> transition list \<Rightarrow> error + scheduler" where
  "run s [] = Inr s"
| "run s (t # ts) = (case step s t of Inl e \<Rightarrow> Inl e | Inr s' \<Rightarrow> run s' ts)"

text \<open>Membership in one of the three live collections, and their pairwise disjointness.\<close>

definition isLive :: "scheduler \<Rightarrow> pid_t \<Rightarrow> bool" where
  "isLive s pid \<longleftrightarrow>
     pid \<in> parallelProcesses s \<or> pid \<in> set (blockedQueue s) \<or> pid \<in> set (runnableQueue s)"

definition disjointLive :: "scheduler \<Rightarrow> bool" where
  "disjointLive s \<longleftrightarrow>
     parallelProcesses s \<inter> set (runnableQueue s) = {} \<and>
     parallelProcesses s \<inter> set (blockedQueue s) = {} \<and>
     set (runnableQueue s) \<inter> set (blockedQueue s) = {}"

text \<open>
  A caller discipline the class does not check: the two unguarded insertions are called
  only on a pid that waits in neither queue.
\<close>

fun admits :: "scheduler \<Rightarrow> transition \<Rightarrow> bool" where
  "admits s (AddToParallelSet p) \<longleftrightarrow> p \<notin> set (runnableQueue s) \<and> p \<notin> set (blockedQueue s)"
| "admits s (AddToRunnableQueue p) \<longleftrightarrow> p \<notin> set (runnableQueue s) \<and> p \<notin> set (blockedQueue s)"
| "admits s _ \<longleftrightarrow> True"

fun disciplined :: "scheduler \<Rightarrow> transition list \<Rightarrow> bool" where
  "disciplined s [] \<longleftrightarrow> True"
| "disciplined s (t # ts) \<longleftrightarrow>
     admits s t \<and> (case step s t of Inl e \<Rightarrow> False | Inr s' \<Rightarrow> disciplined s' ts)"

text \<open>
  Where the second pop of the blocked-queue loop of \<open>isAlive\<close> meets an empty queue:
  the loop visits the positions 0, 2, 4, ... only, and it runs off the end when the
  length is odd and none of the visited positions holds the pid.
\<close>

definition secondPopOnEmpty :: "pid_t \<Rightarrow> pid_t list \<Rightarrow> bool" where
  "secondPopOnEmpty pid q \<longleftrightarrow>
     odd (length q) \<and> (\<forall>i < length q. even i \<longrightarrow> q ! i \<noteq> pid)"

section \<open>What the loops compute\<close>

lemma drain_append: "drain q temp = temp @ q"
  by (induction q arbitrary: temp) simp_all

lemma removeScan_remove1:
  "(case removeScan pid q temp of (r, t) \<Rightarrow> drain r t) = temp @ remove1 pid q"
  by (induction q arbitrary: temp) (simp_all add: drain_append)

lemma removeFromScheduler_eq:
  "removeFromScheduler s pid =
     s\<lparr> parallelProcesses := parallelProcesses s - {pid},
        blockedQueue := remove1 pid (blockedQueue s),
        runnableQueue := remove1 pid (runnableQueue s),
        finishedProcesses := insert pid (finishedProcesses s) \<rparr>"
proof -
  have b: "(case removeScan pid (blockedQueue s) [] of (r, t) \<Rightarrow> drain r t)
             = remove1 pid (blockedQueue s)"
    using removeScan_remove1 [of pid "blockedQueue s" "[]"] by simp
  have r: "(case removeScan pid (runnableQueue s) [] of (r, t) \<Rightarrow> drain r t)
             = remove1 pid (runnableQueue s)"
    using removeScan_remove1 [of pid "runnableQueue s" "[]"] by simp
  have p: "(if pid \<in> parallelProcesses s then parallelProcesses s - {pid}
            else parallelProcesses s) = parallelProcesses s - {pid}"
    by auto
  show ?thesis
    using b r unfolding removeFromScheduler_def p Let_def
    by (auto split: prod.splits)
qed

lemma filter_remove1_other:
  "filter (\<lambda>x. x \<noteq> p) (remove1 p q) = filter (\<lambda>x. x \<noteq> p) q"
  by (induction q) simp_all

lemma remove1_first_occurrence:
  "p \<notin> set xs \<Longrightarrow> remove1 p (xs @ p # ys) = xs @ ys"
  by (simp add: remove1_append)

section \<open>preemptSyscall\<close>

text \<open>
  With a non-empty runnable queue the operation does what the front guard promises: a
  pid other than the front is answered by the exception, before anything is written,
  and the front itself moves to the back of the blocked queue.
\<close>

lemma preemptSyscall_nonempty:
  "runnableQueue s = frontPid # rest \<Longrightarrow>
   preemptSyscall s pid =
     (if frontPid \<noteq> pid then Inl (runtime_error ''trying to preempt wrong pid!'')
      else Inr (s\<lparr> runnableQueue := rest, blockedQueue := blockedQueue s @ [pid] \<rparr>))"
  by (simp add: preemptSyscall_def)

text \<open>
  C1. The claim speaks of every scheduler state and every pid that is not the front of
  the runnable queue. In the freshly constructed scheduler the runnable queue is empty,
  so pid 5 is not its front; \<open>preemptSyscall\<close> then reads \<open>front()\<close> of the empty
  queue (line 183) and never reaches the \<open>throw\<close> of line 185: no invariant violation
  is reported.
\<close>

theorem preemptSyscall_empty_runnable:
  "\<not> atFront 5 (runnableQueue (scheduler_ctor 1)) \<and>
   preemptSyscall (scheduler_ctor 1) 5 = Inl EmptyQueueAccess"
  by (simp add: atFront_def scheduler_ctor_def preemptSyscall_def)

section \<open>resumeRetry\<close>

lemma resumeRetry_front:
  "blockedQueue s = pid # rest \<Longrightarrow>
   resumeRetry s pid = Inr (s\<lparr> blockedQueue := rest @ [pid] \<rparr>)"
  by (simp add: resumeRetry_def)

lemma retryRounds_rotate:
  "blockedQueue s \<noteq> [] \<Longrightarrow>
   retryRounds n s = Inr (s\<lparr> blockedQueue := rotate n (blockedQueue s) \<rparr>)"
proof (induction n arbitrary: s)
  case 0
  then show ?case by simp
next
  case (Suc n)
  then obtain f rest where q: "blockedQueue s = f # rest"
    by (cases "blockedQueue s") auto
  let ?s' = "s\<lparr> blockedQueue := rest @ [f] \<rparr>"
  have one: "resumeRetry s (getNextBlocked s) = Inr ?s'"
    using q by (simp add: resumeRetry_def getNextBlocked_def)
  have "retryRounds n ?s' = Inr (?s'\<lparr> blockedQueue := rotate n (blockedQueue ?s') \<rparr>)"
    by (rule Suc.IH) simp
  then show ?case
    using one q by (simp add: rotate1_rotate_swap)
qed

text \<open>
  With a non-empty blocked queue the operation does what the front guard promises: the
  front moves to the back and the others keep their order (\<open>[A, B, C]\<close> becomes
  \<open>[B, C, A]\<close>), and a pid other than the front is answered by the exception of
  line 60, before anything is written.
\<close>

lemma resumeRetry_nonempty:
  "blockedQueue s = frontPid # rest \<Longrightarrow>
   resumeRetry s pid =
     (if frontPid \<noteq> pid then Inl (runtime_error ''trying to resume retry with wrong pid'')
      else Inr (s\<lparr> blockedQueue := rest @ [pid] \<rparr>))"
  by (simp add: resumeRetry_def)

text \<open>
  As many rounds as the blocked queue has elements, each on the front of the moment,
  give back the state they started from; this needs no distinctness of the pids.
\<close>

lemma retryRounds_full_cycle:
  "blockedQueue s \<noteq> [] \<Longrightarrow> retryRounds (length (blockedQueue s)) s = Inr s"
  by (simp add: retryRounds_rotate)

lemma retryRounds_three:
  "retryRounds 3 \<lparr> startingPid = 1, parallelProcesses = {}, finishedProcesses = {},
                   runnableQueue = [], blockedQueue = [1, 2, 3] \<rparr>
     = Inr \<lparr> startingPid = 1, parallelProcesses = {}, finishedProcesses = {},
             runnableQueue = [], blockedQueue = [1, 2, 3] \<rparr>"
  using retryRounds_full_cycle
    [of "\<lparr> startingPid = 1, parallelProcesses = {}, finishedProcesses = {},
            runnableQueue = [], blockedQueue = [1, 2, 3] \<rparr>"]
  by (simp add: eval_nat_numeral)

text \<open>
  C2. The last clause of the claim makes \<open>resumeRetry\<close> fail for a pid that is not
  the front of the blocked queue. In the freshly constructed scheduler the blocked queue
  is empty, so pid 9 is not its front; \<open>resumeRetry\<close> then reads \<open>front()\<close> of the
  empty queue (line 59) and never reaches the \<open>throw\<close> of line 60: the outcome is the
  undefined read, not the failure the guard was written for.
\<close>

theorem resumeRetry_empty_blocked:
  "\<not> atFront 9 (blockedQueue (scheduler_ctor 2)) \<and>
   resumeRetry (scheduler_ctor 2) 9 = Inl EmptyQueueAccess \<and>
   resumeRetry (scheduler_ctor 2) 9
     \<noteq> Inl (runtime_error ''trying to resume retry with wrong pid'')"
  by (simp add: atFront_def scheduler_ctor_def resumeRetry_def)

section \<open>resumeParallel\<close>

text \<open>
  With both queues non-empty the operation follows the two front guards, the blocked
  one first, and a pid at neither front is answered by the exception before anything
  is written.
\<close>

lemma resumeParallel_nonempty:
  "blockedQueue s = frontBlocked # restBlocked \<Longrightarrow>
   runnableQueue s = frontRunnable # restRunnable \<Longrightarrow>
   resumeParallel s pid =
     (if frontBlocked = pid then
        Inr (s\<lparr> blockedQueue := restBlocked,
                parallelProcesses := insert pid (parallelProcesses s) \<rparr>)
      else if frontRunnable = pid then
        Inr (s\<lparr> runnableQueue := restRunnable,
                parallelProcesses := insert pid (parallelProcesses s) \<rparr>)
      else Inl (runtime_error ''trying to resume pid that is not front of either queue''))"
  by (simp add: resumeParallel_def)

text \<open>
  C7. The claim lets \<open>resumeParallel\<close> succeed whenever pid is the front of the
  blocked queue. After the lifecycle \<open>addToRunnableQueue(100)\<close>,
  \<open>preemptSyscall(100)\<close> on the fresh scheduler, pid 100 is the front of the blocked
  queue and the runnable queue is empty; \<open>resumeParallel(100)\<close> reads
  \<open>runnableQueue.front()\<close> of the empty queue (line 193) before it compares anything,
  and does not return the state with 100 in the parallel set.
\<close>

theorem resumeParallel_sole_blocked:
  "run (scheduler_ctor 100) [AddToRunnableQueue 100, PreemptSyscall 100]
     = Inr \<lparr> startingPid = 100, parallelProcesses = {}, finishedProcesses = {},
             runnableQueue = [], blockedQueue = [100] \<rparr> \<and>
   atFront 100 (blockedQueue \<lparr> startingPid = 100, parallelProcesses = {}, finishedProcesses = {},
             runnableQueue = [], blockedQueue = [100] \<rparr>) \<and>
   resumeParallel \<lparr> startingPid = 100, parallelProcesses = {}, finishedProcesses = {},
             runnableQueue = [], blockedQueue = [100] \<rparr> 100 = Inl EmptyQueueAccess"
  by (simp add: scheduler_ctor_def addToRunnableQueue_def preemptSyscall_def
      resumeParallel_def atFront_def)

section \<open>removeFromScheduler\<close>

text \<open>
  C8. Removing a pid from the middle of a queue: when pid first occurs after the
  elements \<open>before\<close> and in front of \<open>after\<close>, the queue becomes \<open>before @ after\<close>
  (runnable \<open>[A, B, C]\<close> without B is \<open>[A, C]\<close>), in either queue. In every case
  the elements other than pid keep their order in both queues, the parallel set loses
  at most pid, and pid is inserted into the finished set.
\<close>

theorem removeFromScheduler_mid_queue:
  "(runnableQueue s = before @ pid # after \<and> pid \<notin> set before \<longrightarrow>
      runnableQueue (removeFromScheduler s pid) = before @ after) \<and>
   (blockedQueue s = before @ pid # after \<and> pid \<notin> set before \<longrightarrow>
      blockedQueue (removeFromScheduler s pid) = before @ after) \<and>
   filter (\<lambda>x. x \<noteq> pid) (runnableQueue (removeFromScheduler s pid))
     = filter (\<lambda>x. x \<noteq> pid) (runnableQueue s) \<and>
   filter (\<lambda>x. x \<noteq> pid) (blockedQueue (removeFromScheduler s pid))
     = filter (\<lambda>x. x \<noteq> pid) (blockedQueue s) \<and>
   parallelProcesses (removeFromScheduler s pid) = parallelProcesses s - {pid} \<and>
   finishedProcesses (removeFromScheduler s pid) = insert pid (finishedProcesses s)"
  by (simp add: removeFromScheduler_eq filter_remove1_other remove1_first_occurrence)

theorem removeFromScheduler_mid_queue_witness:
  "removeFromScheduler
     \<lparr> startingPid = 1, parallelProcesses = {4}, finishedProcesses = {},
       runnableQueue = [1, 2, 3], blockedQueue = [5, 6] \<rparr> 2
   = \<lparr> startingPid = 1, parallelProcesses = {4}, finishedProcesses = {2},
       runnableQueue = [1, 3], blockedQueue = [5, 6] \<rparr>"
proof -
  let ?s = "\<lparr> startingPid = 1, parallelProcesses = {4::int}, finishedProcesses = {},
       runnableQueue = [1, 2, 3], blockedQueue = [5, 6] \<rparr>"
  have h: "runnableQueue ?s = [1] @ 2 # [3] \<and> 2 \<notin> set [1::int]" by simp
  have "startingPid (removeFromScheduler ?s 2) = 1"
    by (simp add: removeFromScheduler_def Let_def split: prod.splits)
  moreover have "blockedQueue (removeFromScheduler ?s 2) = [5, 6]"
    by (simp add: removeFromScheduler_def Let_def)
  ultimately show ?thesis
    using h removeFromScheduler_mid_queue [of ?s "[1]" 2 "[3]"]
    by (cases "removeFromScheduler ?s 2") simp
qed

text \<open>
  C9. A pid that is in none of the three live collections: \<open>removeFromScheduler\<close>
  has no error branch, returns the same state with pid added to the finished set, and
  \<open>isFinished\<close> holds of pid afterwards.
\<close>

theorem removeFromScheduler_absent:
  "pid \<notin> parallelProcesses s \<Longrightarrow> pid \<notin> set (blockedQueue s) \<Longrightarrow>
   pid \<notin> set (runnableQueue s) \<Longrightarrow>
   removeFromScheduler s pid = s\<lparr> finishedProcesses := insert pid (finishedProcesses s) \<rparr> \<and>
   isFinished (removeFromScheduler s pid) pid"
  by (simp add: removeFromScheduler_eq remove1_idem isFinished_def)

theorem removeFromScheduler_absent_witness:
  "removeFromScheduler
     \<lparr> startingPid = 1, parallelProcesses = {4}, finishedProcesses = {9},
       runnableQueue = [1, 2], blockedQueue = [5] \<rparr> 7
   = \<lparr> startingPid = 1, parallelProcesses = {4}, finishedProcesses = {7, 9},
       runnableQueue = [1, 2], blockedQueue = [5] \<rparr> \<and>
   isFinished (removeFromScheduler
     \<lparr> startingPid = 1, parallelProcesses = {4}, finishedProcesses = {9},
       runnableQueue = [1, 2], blockedQueue = [5] \<rparr> 7) 7"
  using removeFromScheduler_absent
    [of 7 "\<lparr> startingPid = 1, parallelProcesses = {4}, finishedProcesses = {9},
       runnableQueue = [1, 2], blockedQueue = [5] \<rparr>"]
  by (simp add: isFinished_def)

section \<open>isAlive\<close>

text \<open>
  The runnable-queue loop gives the queue back as it was and finds pid wherever it is;
  so with an empty blocked queue \<open>isAlive\<close> is the membership test and changes
  nothing.
\<close>

lemma isAliveRunnableScan_restores:
  "(case isAliveRunnableScan pid q temp of (found, rest, t) \<Rightarrow> (found, drain rest t))
     = (pid \<in> set q, temp @ q)"
  by (induction q arbitrary: temp) (auto simp add: drain_append)

lemma isAlive_empty_blocked:
  assumes "blockedQueue s = []"
  shows "isAlive s pid = Inr (isLive s pid, s)"
proof -
  have "(case isAliveRunnableScan pid (runnableQueue s) [] of
           (found, rest, t) \<Rightarrow> (found, drain rest t))
          = (pid \<in> set (runnableQueue s), runnableQueue s)"
    using isAliveRunnableScan_restores [of pid "runnableQueue s" "[]"] by simp
  then show ?thesis
    using assms by (auto simp add: isAlive_def isLive_def split: prod.splits)
qed

text \<open>
  C5. The claim makes \<open>isAlive\<close> true for a pid anywhere in the blocked queue. The
  state with blocked queue \<open>[1, 2]\<close> is reached through the transitions; pid 2 is in
  the blocked queue, yet \<open>isAlive(2)\<close> answers false: the second \<open>pop()\<close> of line
  89 discards 2 unseen.
\<close>

theorem isAlive_skips_second_blocked:
  "run (scheduler_ctor 1)
       [AddToParallelSet 2, AddToRunnableQueue 1, PreemptSyscall 1,
        AddToRunnableQueue 2, PreemptSyscall 2]
     = Inr \<lparr> startingPid = 1, parallelProcesses = {}, finishedProcesses = {},
             runnableQueue = [], blockedQueue = [1, 2] \<rparr> \<and>
   isLive \<lparr> startingPid = 1, parallelProcesses = {}, finishedProcesses = {},
            runnableQueue = [], blockedQueue = [1, 2] \<rparr> 2 \<and>
   isAlive \<lparr> startingPid = 1, parallelProcesses = {}, finishedProcesses = {},
             runnableQueue = [], blockedQueue = [1, 2] \<rparr> 2
     = Inr (False, \<lparr> startingPid = 1, parallelProcesses = {}, finishedProcesses = {},
                     runnableQueue = [], blockedQueue = [1] \<rparr>)"
  by (auto simp add: scheduler_ctor_def addToParallelSet_def addToRunnableQueue_def
      preemptSyscall_def isLive_def isAlive_def)

text \<open>
  C6. The claim makes every query leave the state as it was. With pid 7 alone in the
  blocked queue, \<open>isAlive(7)\<close> pops it (line 81), finds it, and assigns the empty
  temporary to the blocked queue (line 99): the state after the call has lost pid 7.
\<close>

theorem isAlive_drops_blocked_front:
  "run (scheduler_ctor 7) [AddToRunnableQueue 7, PreemptSyscall 7]
     = Inr \<lparr> startingPid = 7, parallelProcesses = {}, finishedProcesses = {},
             runnableQueue = [], blockedQueue = [7] \<rparr> \<and>
   isAlive \<lparr> startingPid = 7, parallelProcesses = {}, finishedProcesses = {},
             runnableQueue = [], blockedQueue = [7] \<rparr> 7
     = Inr (True, \<lparr> startingPid = 7, parallelProcesses = {}, finishedProcesses = {},
                    runnableQueue = [], blockedQueue = [] \<rparr>)"
  by (simp add: scheduler_ctor_def addToRunnableQueue_def preemptSyscall_def isAlive_def)

section \<open>Reads of an empty queue\<close>

lemma secondPopOnEmpty_Nil: "\<not> secondPopOnEmpty pid []"
  by (simp add: secondPopOnEmpty_def)

lemma secondPopOnEmpty_single: "secondPopOnEmpty pid [f] \<longleftrightarrow> f \<noteq> pid"
  by (simp add: secondPopOnEmpty_def)

lemma secondPopOnEmpty_step:
  "secondPopOnEmpty pid (f # x # q) \<longleftrightarrow> f \<noteq> pid \<and> secondPopOnEmpty pid q"
proof
  assume l: "secondPopOnEmpty pid (f # x # q)"
  then have "f \<noteq> pid" unfolding secondPopOnEmpty_def by force
  moreover have "odd (length q)" using l by (simp add: secondPopOnEmpty_def)
  moreover have "q ! j \<noteq> pid" if "j < length q" "even j" for j
  proof -
    have "Suc (Suc j) < length (f # x # q)" "even (Suc (Suc j))" using that by simp_all
    then have "(f # x # q) ! Suc (Suc j) \<noteq> pid"
      using l unfolding secondPopOnEmpty_def by blast
    then show ?thesis by simp
  qed
  ultimately show "f \<noteq> pid \<and> secondPopOnEmpty pid q"
    by (simp add: secondPopOnEmpty_def)
next
  assume r: "f \<noteq> pid \<and> secondPopOnEmpty pid q"
  have "(f # x # q) ! i \<noteq> pid" if lt: "i < length (f # x # q)" and ev: "even i" for i
  proof (cases i)
    case 0
    then show ?thesis using r by simp
  next
    case (Suc k)
    then obtain j where j: "i = Suc (Suc j)"
      using ev by (cases k) auto
    then have "j < length q" "even j" using lt ev by simp_all
    then show ?thesis using r j by (simp add: secondPopOnEmpty_def)
  qed
  moreover have "odd (length (f # x # q))" using r by (simp add: secondPopOnEmpty_def)
  ultimately show "secondPopOnEmpty pid (f # x # q)"
    unfolding secondPopOnEmpty_def by blast
qed

lemma isAliveBlockedScan_fault:
  "isAliveBlockedScan pid q temp = Inl e \<longleftrightarrow> e = EmptyQueueAccess \<and> secondPopOnEmpty pid q"
proof (induction pid q temp rule: isAliveBlockedScan.induct)
  case (1 pid temp)
  then show ?case by (simp add: secondPopOnEmpty_Nil)
next
  case (2 pid frontPid q temp)
  show ?case
  proof (cases q)
    case Nil
    then show ?thesis by (auto simp add: secondPopOnEmpty_single)
  next
    case (Cons x q')
    then show ?thesis
      using "2.IH" [of x q'] by (auto simp add: secondPopOnEmpty_step)
  qed
qed

lemma isAlive_fault:
  "isAlive s pid = Inl e \<longleftrightarrow>
     e = EmptyQueueAccess \<and> pid \<notin> parallelProcesses s \<and> secondPopOnEmpty pid (blockedQueue s)"
proof (cases "isAliveBlockedScan pid (blockedQueue s) []")
  case (Inl e')
  then show ?thesis
    using isAliveBlockedScan_fault [of pid "blockedQueue s" "[]" e']
    by (auto simp add: isAlive_def)
next
  case (Inr r)
  then have "\<not> secondPopOnEmpty pid (blockedQueue s)"
    using isAliveBlockedScan_fault [of pid "blockedQueue s" "[]" EmptyQueueAccess] by simp
  then show ?thesis
    using Inr by (auto simp add: isAlive_def split: prod.splits)
qed

text \<open>
  C10. Which calls read or pop an empty queue. \<open>resumeRetry\<close> does exactly when the
  blocked queue is empty, \<open>preemptSyscall\<close> exactly when the runnable queue is empty,
  \<open>resumeParallel\<close> exactly when one of the two queues is empty, whichever front pid
  is. \<open>isAlive\<close> does exactly when pid is not in the parallel set and its blocked scan
  pops a second time with nothing left, and it never throws. In each case the outcome
  is the empty-queue branch, not a \<open>runtime_error\<close>.
\<close>

theorem unguarded_queue_reads:
  "(resumeRetry s pid = Inl EmptyQueueAccess \<longleftrightarrow> blockedQueue s = []) \<and>
   (preemptSyscall s pid = Inl EmptyQueueAccess \<longleftrightarrow> runnableQueue s = []) \<and>
   (resumeParallel s pid = Inl EmptyQueueAccess \<longleftrightarrow>
      blockedQueue s = [] \<or> runnableQueue s = []) \<and>
   (isAlive s pid = Inl EmptyQueueAccess \<longleftrightarrow>
      pid \<notin> parallelProcesses s \<and> secondPopOnEmpty pid (blockedQueue s)) \<and>
   (\<forall>msg. isAlive s pid \<noteq> Inl (runtime_error msg))"
proof (intro conjI)
  show "resumeRetry s pid = Inl EmptyQueueAccess \<longleftrightarrow> blockedQueue s = []"
    by (simp add: resumeRetry_def split: list.splits)
  show "preemptSyscall s pid = Inl EmptyQueueAccess \<longleftrightarrow> runnableQueue s = []"
    by (simp add: preemptSyscall_def split: list.splits)
  show "resumeParallel s pid = Inl EmptyQueueAccess \<longleftrightarrow>
      blockedQueue s = [] \<or> runnableQueue s = []"
    by (simp add: resumeParallel_def split: list.splits)
  show "isAlive s pid = Inl EmptyQueueAccess \<longleftrightarrow>
      pid \<notin> parallelProcesses s \<and> secondPopOnEmpty pid (blockedQueue s)"
    by (simp add: isAlive_fault)
  show "\<forall>msg. isAlive s pid \<noteq> Inl (runtime_error msg)"
    by (simp add: isAlive_fault)
qed

theorem unguarded_queue_reads_witness:
  "resumeRetry (scheduler_ctor 3) 3 = Inl EmptyQueueAccess \<and>
   preemptSyscall (scheduler_ctor 3) 3 = Inl EmptyQueueAccess \<and>
   resumeParallel \<lparr> startingPid = 3, parallelProcesses = {}, finishedProcesses = {},
                    runnableQueue = [], blockedQueue = [3] \<rparr> 3 = Inl EmptyQueueAccess \<and>
   resumeParallel \<lparr> startingPid = 3, parallelProcesses = {}, finishedProcesses = {},
                    runnableQueue = [3], blockedQueue = [] \<rparr> 3 = Inl EmptyQueueAccess \<and>
   isAlive \<lparr> startingPid = 3, parallelProcesses = {}, finishedProcesses = {},
             runnableQueue = [4], blockedQueue = [3] \<rparr> 4 = Inl EmptyQueueAccess"
  using unguarded_queue_reads [of "scheduler_ctor 3" 3]
    unguarded_queue_reads [of "\<lparr> startingPid = 3, parallelProcesses = {}, finishedProcesses = {},
                    runnableQueue = [], blockedQueue = [3] \<rparr>" 3]
    unguarded_queue_reads [of "\<lparr> startingPid = 3, parallelProcesses = {}, finishedProcesses = {},
                    runnableQueue = [3], blockedQueue = [] \<rparr>" 3]
    unguarded_queue_reads [of "\<lparr> startingPid = 3, parallelProcesses = {}, finishedProcesses = {},
             runnableQueue = [4], blockedQueue = [3] \<rparr>" 4]
  by (simp add: scheduler_ctor_def secondPopOnEmpty_def)

section \<open>Sequences of transitions\<close>

lemma step_keeps_discipline:
  assumes inv: "disjointLive s" "distinct (runnableQueue s)" "distinct (blockedQueue s)"
      and adm: "admits s t"
      and st: "step s t = Inr s'"
  shows "disjointLive s' \<and> distinct (runnableQueue s') \<and> distinct (blockedQueue s')"
proof (cases t)
  case (AddToParallelSet p)
  then show ?thesis
    using inv adm st by (auto simp add: addToParallelSet_def disjointLive_def)
next
  case (AddToRunnableQueue p)
  then show ?thesis
    using inv adm st by (auto simp add: addToRunnableQueue_def disjointLive_def)
next
  case (PreemptSyscall p)
  then show ?thesis
    using inv st
    by (auto simp add: preemptSyscall_def disjointLive_def split: list.splits if_splits)
next
  case (ResumeRetry p)
  then show ?thesis
    using inv st
    by (auto simp add: resumeRetry_def disjointLive_def split: list.splits if_splits)
next
  case (ResumeParallel p)
  then show ?thesis
    using inv st
    by (auto simp add: resumeParallel_def disjointLive_def split: list.splits if_splits)
next
  case (RemoveFromScheduler p)
  then have s': "s' = removeFromScheduler s p" using st by simp
  have sub: "set (remove1 p q) \<subseteq> set q" for q :: "pid_t list"
    by (rule set_remove1_subset)
  show ?thesis
    using inv sub [of "runnableQueue s"] sub [of "blockedQueue s"]
    unfolding s' removeFromScheduler_eq disjointLive_def
    by auto
qed

lemma run_keeps_discipline:
  "disjointLive s \<Longrightarrow> distinct (runnableQueue s) \<Longrightarrow> distinct (blockedQueue s) \<Longrightarrow>
   disciplined s ts \<Longrightarrow> run s ts = Inr s' \<Longrightarrow>
   disjointLive s' \<and> distinct (runnableQueue s') \<and> distinct (blockedQueue s')"
proof (induction ts arbitrary: s)
  case Nil
  then show ?case by simp
next
  case (Cons t ts)
  from Cons.prems(4) obtain s1 where s1: "step s t = Inr s1" and adm: "admits s t"
    and rest: "disciplined s1 ts"
    by (auto split: sum.splits)
  have inv1: "disjointLive s1 \<and> distinct (runnableQueue s1) \<and> distinct (blockedQueue s1)"
    using step_keeps_discipline [OF Cons.prems(1-3) adm s1] .
  have "run s1 ts = Inr s'" using Cons.prems(5) s1 by simp
  then show ?case using Cons.IH [of s1] inv1 rest by blast
qed

text \<open>
  C3, as stated, fails: \<open>addToParallelSet\<close> and \<open>addToRunnableQueue\<close> have no
  precondition, and calling the first on a pid that waits in the runnable queue leaves
  the pid in both collections.
\<close>

theorem disjoint_reachable_counterexample:
  "run (scheduler_ctor 1) [AddToRunnableQueue 1, AddToParallelSet 1]
     = Inr \<lparr> startingPid = 1, parallelProcesses = {1}, finishedProcesses = {},
             runnableQueue = [1], blockedQueue = [] \<rparr> \<and>
   \<not> disjointLive \<lparr> startingPid = 1, parallelProcesses = {1}, finishedProcesses = {},
                    runnableQueue = [1], blockedQueue = [] \<rparr>"
  by (simp add: scheduler_ctor_def addToRunnableQueue_def addToParallelSet_def disjointLive_def)

text \<open>
  C3, amended. Starting from the constructed scheduler, every sequence of transitions
  that all return normally, and in which \<open>addToParallelSet\<close> and
  \<open>addToRunnableQueue\<close> are called only on a pid that is in neither queue, ends in a
  state whose three live collections are pairwise disjoint.
\<close>

theorem disjoint_under_discipline:
  assumes "disciplined (scheduler_ctor p) ts"
      and "run (scheduler_ctor p) ts = Inr s"
    shows "disjointLive s"
proof -
  have "disjointLive (scheduler_ctor p)" "distinct (runnableQueue (scheduler_ctor p))"
    "distinct (blockedQueue (scheduler_ctor p))"
    by (simp_all add: scheduler_ctor_def disjointLive_def)
  then show ?thesis
    using run_keeps_discipline assms by blast
qed

theorem disjoint_under_discipline_witness:
  "disciplined (scheduler_ctor 1)
     [AddToParallelSet 2, AddToParallelSet 3, AddToRunnableQueue 1, AddToRunnableQueue 2,
      AddToRunnableQueue 3, PreemptSyscall 1, ResumeRetry 1, ResumeParallel 2,
      RemoveFromScheduler 3] \<and>
   run (scheduler_ctor 1)
     [AddToParallelSet 2, AddToParallelSet 3, AddToRunnableQueue 1, AddToRunnableQueue 2,
      AddToRunnableQueue 3, PreemptSyscall 1, ResumeRetry 1, ResumeParallel 2,
      RemoveFromScheduler 3]
     = Inr \<lparr> startingPid = 1, parallelProcesses = {2}, finishedProcesses = {3},
             runnableQueue = [], blockedQueue = [1] \<rparr> \<and>
   disjointLive \<lparr> startingPid = 1, parallelProcesses = {2}, finishedProcesses = {3},
                  runnableQueue = [], blockedQueue = [1] \<rparr>"
proof -
  let ?ts = "[AddToParallelSet 2, AddToParallelSet 3, AddToRunnableQueue 1,
      AddToRunnableQueue 2, AddToRunnableQueue 3, PreemptSyscall 1, ResumeRetry 1,
      ResumeParallel 2, RemoveFromScheduler 3]"
  let ?s = "\<lparr> startingPid = 1, parallelProcesses = {2}, finishedProcesses = {3},
             runnableQueue = [], blockedQueue = [1] \<rparr>"
  have r: "run (scheduler_ctor 1) ?ts = Inr ?s"
    by (auto simp add: scheduler_ctor_def addToParallelSet_def addToRunnableQueue_def
        preemptSyscall_def resumeRetry_def resumeParallel_def removeFromScheduler_eq)
  have d: "disciplined (scheduler_ctor 1) ?ts"
    by (auto simp add: scheduler_ctor_def addToParallelSet_def addToRunnableQueue_def
        preemptSyscall_def resumeRetry_def resumeParallel_def removeFromScheduler_eq)
  show ?thesis
    using d r disjoint_under_discipline [OF d r] by simp
qed

lemma remove1_single_occurrence:
  "count_list q p \<le> 1 \<Longrightarrow> p \<notin> set (remove1 p q)"
proof (induction q)
  case Nil
  then show ?case by simp
next
  case (Cons x q)
  show ?case
  proof (cases "x = p")
    case True
    then have "count_list q p = 0" using Cons.prems by simp
    then show ?thesis using True by (simp add: count_list_0_iff)
  next
    case False
    then show ?thesis using Cons by simp
  qed
qed

lemma step_keeps_retired:
  assumes fin: "pid \<in> finishedProcesses s" and dead: "\<not> isLive s pid"
      and t: "t \<noteq> AddToParallelSet pid" "t \<noteq> AddToRunnableQueue pid"
      and st: "step s t = Inr s'"
  shows "pid \<in> finishedProcesses s' \<and> \<not> isLive s' pid"
proof (cases t)
  case (AddToParallelSet p)
  then show ?thesis
    using fin dead t st by (auto simp add: addToParallelSet_def isLive_def)
next
  case (AddToRunnableQueue p)
  then show ?thesis
    using fin dead t st by (auto simp add: addToRunnableQueue_def isLive_def)
next
  case (PreemptSyscall p)
  then show ?thesis
    using fin dead st
    by (auto simp add: preemptSyscall_def isLive_def split: list.splits if_splits)
next
  case (ResumeRetry p)
  then show ?thesis
    using fin dead st
    by (auto simp add: resumeRetry_def isLive_def split: list.splits if_splits)
next
  case (ResumeParallel p)
  then show ?thesis
    using fin dead st
    by (auto simp add: resumeParallel_def isLive_def split: list.splits if_splits)
next
  case (RemoveFromScheduler p)
  then have s': "s' = removeFromScheduler s p" using st by simp
  have sub: "set (remove1 p q) \<subseteq> set q" for q :: "pid_t list"
    by (rule set_remove1_subset)
  show ?thesis
    using fin dead sub [of "runnableQueue s"] sub [of "blockedQueue s"]
    unfolding s' removeFromScheduler_eq isLive_def
    by auto
qed

lemma run_keeps_retired:
  "pid \<in> finishedProcesses s \<Longrightarrow> \<not> isLive s pid \<Longrightarrow>
   AddToParallelSet pid \<notin> set ts \<Longrightarrow> AddToRunnableQueue pid \<notin> set ts \<Longrightarrow>
   run s ts = Inr s' \<Longrightarrow> pid \<in> finishedProcesses s' \<and> \<not> isLive s' pid"
proof (induction ts arbitrary: s)
  case Nil
  then show ?case by simp
next
  case (Cons t ts)
  from Cons.prems(5) obtain s1 where s1: "step s t = Inr s1" and rest: "run s1 ts = Inr s'"
    by (auto split: sum.splits)
  have "t \<noteq> AddToParallelSet pid" "t \<noteq> AddToRunnableQueue pid"
    using Cons.prems(3,4) by auto
  then have "pid \<in> finishedProcesses s1 \<and> \<not> isLive s1 pid"
    using step_keeps_retired [OF Cons.prems(1,2) _ _ s1] by blast
  then show ?case
    using Cons.IH [of s1] Cons.prems(3,4) rest by simp
qed

text \<open>
  C4, as stated, fails: no transition consults the finished set. After
  \<open>removeFromScheduler(1)\<close> pid 1 is finished and in no live collection, and
  \<open>addToParallelSet(1)\<close> puts it into the parallel set all the same.
\<close>

theorem finished_reenters_counterexample:
  "isFinished (removeFromScheduler (scheduler_ctor 1) 1) 1 \<and>
   \<not> isLive (removeFromScheduler (scheduler_ctor 1) 1) 1 \<and>
   isFinished (addToParallelSet (removeFromScheduler (scheduler_ctor 1) 1) 1) 1 \<and>
   isInParallel (addToParallelSet (removeFromScheduler (scheduler_ctor 1) 1) 1) 1"
  by (simp add: removeFromScheduler_eq scheduler_ctor_def addToParallelSet_def
      isFinished_def isLive_def isInParallel_def)

text \<open>
  C4, amended. Let \<open>removeFromScheduler(pid)\<close> retire a pid that occurred at most
  once in each queue. Then after every later sequence of transitions that return
  normally and among which there is no \<open>addToParallelSet(pid)\<close> and no
  \<open>addToRunnableQueue(pid)\<close> for this same pid, the pid is still in the finished set
  and in none of the parallel set, the runnable queue and the blocked queue.
\<close>

theorem finished_stays_retired:
  assumes "count_list (blockedQueue s) pid \<le> 1" and "count_list (runnableQueue s) pid \<le> 1"
      and "AddToParallelSet pid \<notin> set ts" and "AddToRunnableQueue pid \<notin> set ts"
      and "run (removeFromScheduler s pid) ts = Inr s'"
    shows "isFinished s' pid \<and> \<not> isLive s' pid"
proof -
  let ?s0 = "removeFromScheduler s pid"
  have "pid \<in> finishedProcesses ?s0" by (simp add: removeFromScheduler_eq)
  moreover have "\<not> isLive ?s0 pid"
    using assms(1,2) by (simp add: removeFromScheduler_eq isLive_def remove1_single_occurrence)
  ultimately show ?thesis
    using run_keeps_retired [of pid ?s0 ts s'] assms(3-5) by (simp add: isFinished_def)
qed

theorem finished_stays_retired_witness:
  "count_list [4] (2 :: pid_t) \<le> 1 \<and> count_list [1, 2, 3] (2 :: pid_t) \<le> 1 \<and>
   run (removeFromScheduler
          \<lparr> startingPid = 1, parallelProcesses = {}, finishedProcesses = {},
            runnableQueue = [1, 2, 3], blockedQueue = [4] \<rparr> 2)
       [PreemptSyscall 1, AddToParallelSet 5, ResumeRetry 4, AddToRunnableQueue 5]
     = Inr \<lparr> startingPid = 1, parallelProcesses = {}, finishedProcesses = {2},
             runnableQueue = [3, 5], blockedQueue = [1, 4] \<rparr> \<and>
   isFinished \<lparr> startingPid = 1, parallelProcesses = {}, finishedProcesses = {2},
                runnableQueue = [3, 5], blockedQueue = [1, 4] \<rparr> 2 \<and>
   \<not> isLive \<lparr> startingPid = 1, parallelProcesses = {}, finishedProcesses = {2},
              runnableQueue = [3, 5], blockedQueue = [1, 4] \<rparr> 2"
proof -
  let ?s = "\<lparr> startingPid = 1, parallelProcesses = {}, finishedProcesses = {},
            runnableQueue = [1, 2, 3], blockedQueue = [4] \<rparr>"
  let ?ts = "[PreemptSyscall 1, AddToParallelSet 5, ResumeRetry 4, AddToRunnableQueue 5]"
  let ?s' = "\<lparr> startingPid = 1, parallelProcesses = {}, finishedProcesses = {2},
             runnableQueue = [3, 5], blockedQueue = [1, 4] \<rparr>"
  have c: "count_list (blockedQueue ?s) 2 \<le> 1" "count_list (runnableQueue ?s) 2 \<le> 1"
    by simp_all
  have n: "AddToParallelSet 2 \<notin> set ?ts" "AddToRunnableQueue 2 \<notin> set ?ts"
    by simp_all
  have r: "run (removeFromScheduler ?s 2) ?ts = Inr ?s'"
    by (auto simp add: addToParallelSet_def addToRunnableQueue_def preemptSyscall_def
        resumeRetry_def removeFromScheduler_eq)
  show ?thesis
    using c r finished_stays_retired [OF c n r] by simp
qed

end
